theory Spec2Isabelle
  imports Complex_Main
begin

section \<open>Data model of the stacked bar chart\<close>

text \<open>
  The component \<^verbatim>\<open>StackedBarChart\<close> exists in two variants: the earlier one without a
  target line, and the later one (\<^verbatim>\<open>src/components/StackedBarChart.tsx\<close>) with the
  quarterly targets overlaid. Both share the aggregation, the bar geometry, the tooltip
  and the legend; they differ in the domain of the value scale.

  JavaScript numbers are idealised as real numbers: finite, not NaN, and without
  rounding. The field \<^verbatim>\<open>value\<close> of the source is called \<open>val\<close> here.
\<close>

record DataPoint =
  date :: string
  category :: string
  val :: real

record QuarterlyTarget =
  tdate :: string
  tvalue :: real

text \<open>The only exception the effect can raise: iterating over \<^verbatim>\<open>undefined\<close>.\<close>

datatype error = TypeError

text \<open>
  \<^verbatim>\<open>x || 0\<close> for a number that may be \<^verbatim>\<open>undefined\<close>: the falsy values (here
  \<^verbatim>\<open>undefined\<close> and \<^verbatim>\<open>0\<close>) give \<^verbatim>\<open>0\<close>, any other number is returned.
\<close>

definition or0 :: "real option \<Rightarrow> real" where
  "or0 v = (case v of None \<Rightarrow> 0 | Some x \<Rightarrow> if x = 0 then 0 else x)"

section \<open>The library operations the effect calls\<close>

subsection \<open>\<^verbatim>\<open>new Set(xs)\<close> and \<^verbatim>\<open>Array.from\<close>\<close>

text \<open>
  A JavaScript \<^verbatim>\<open>Set\<close> iterates in insertion order, and adding a member again changes
  nothing. It is a list here, built by adding the elements from left to right.
\<close>

definition Set_add :: "'a list \<Rightarrow> 'a \<Rightarrow> 'a list" where
  "Set_add s x = (if x \<in> set s then s else s @ [x])"

definition new_Set :: "'a list \<Rightarrow> 'a list" where
  "new_Set xs = foldl Set_add [] xs"

subsection \<open>\<^verbatim>\<open>d3.group\<close>\<close>

text \<open>
  \<^verbatim>\<open>d3.group(values, keyof)\<close> returns a map from key to the array of the values with
  that key. For each value in turn: when the key has a group the value is pushed onto it,
  otherwise a new group is set at the end of the map. The map is an association list in
  insertion order, which is the order \<^verbatim>\<open>Array.from(groupedData)\<close> and
  \<^verbatim>\<open>groupedData.keys()\<close> iterate in.
\<close>

fun group_add :: "('a \<Rightarrow> 'k) \<Rightarrow> ('k \<times> 'a list) list \<Rightarrow> 'a \<Rightarrow> ('k \<times> 'a list) list" where
  "group_add keyof [] v = [(keyof v, [v])]"
| "group_add keyof ((k, vs) # groups) v =
     (if k = keyof v then (k, vs @ [v]) # groups else (k, vs) # group_add keyof groups v)"

definition d3_group :: "'a list \<Rightarrow> ('a \<Rightarrow> 'k) \<Rightarrow> ('k \<times> 'a list) list" where
  "d3_group vals keyof = foldl (group_add keyof) [] vals"

subsection \<open>\<^verbatim>\<open>d3.max\<close>\<close>

text \<open>
  \<^verbatim>\<open>d3.max(values, valueof)\<close> iterates over \<^verbatim>\<open>values\<close> and keeps the greatest
  accessed value; on an empty array it returns \<^verbatim>\<open>undefined\<close>. The accessor is applied
  by the caller here (\<open>map\<close>). Iterating over \<^verbatim>\<open>undefined\<close> raises a
  \<^verbatim>\<open>TypeError\<close>: that is the caller's case, see \<open>maxDataValue\<close>.
\<close>

fun max_step :: "real option \<Rightarrow> real \<Rightarrow> real option" where
  "max_step None v = Some v"
| "max_step (Some m) v = (if m < v then Some v else Some m)"

definition d3_max :: "real list \<Rightarrow> real option" where
  "d3_max vals = foldl max_step None vals"

subsection \<open>\<^verbatim>\<open>d3.stack\<close>\<close>

text \<open>
  A series point is the array \<^verbatim>\<open>[d[0], d[1]]\<close> with the property \<^verbatim>\<open>data\<close>, the
  datum it was computed from: here an entry \<^verbatim>\<open>[date, records]\<close> of the grouped data.
  A series is the array of the points of one key, one per datum.
\<close>

type_synonym Bucket = "string \<times> DataPoint list"

record SeriesPoint =
  p0 :: real
  p1 :: real
  pdata :: Bucket

record Series =
  key :: string
  points :: "SeriesPoint list"

text \<open>
  The value accessor given to the stack generator:
  \<^verbatim>\<open>(d, key) => d[1].find(item => item.category === key)?.value || 0\<close>.
\<close>

definition stack_value :: "Bucket \<Rightarrow> string \<Rightarrow> real" where
  "stack_value d k = or0 (map_option val (find (\<lambda>item. category item = k) (snd d)))"

text \<open>
  The generator first fills every series with the points \<^verbatim>\<open>[0, value(d, key)]\<close>;
  then the default offset (none) walks the series in the order of the keys (the default
  order) and lifts each one onto the one before it:
  \<^verbatim>\<open>s1[j][1] += s1[j][0] = s0[j][1]\<close>.
\<close>

definition stackSeries :: "Bucket list \<Rightarrow> string \<Rightarrow> Series" where
  "stackSeries ds k =
     \<lparr>key = k, points = map (\<lambda>d. \<lparr>p0 = 0, p1 = stack_value d k, pdata = d\<rparr>) ds\<rparr>"

definition lift_point :: "SeriesPoint \<Rightarrow> SeriesPoint \<Rightarrow> SeriesPoint" where
  "lift_point a b = b\<lparr>p0 := p1 a, p1 := p1 b + p1 a\<rparr>"

fun offsetNone_from :: "SeriesPoint list \<Rightarrow> Series list \<Rightarrow> Series list" where
  "offsetNone_from s0 [] = []"
| "offsetNone_from s0 (s1 # rest) =
     (let s1' = s1\<lparr>points := map2 lift_point s0 (points s1)\<rparr>
      in s1' # offsetNone_from (points s1') rest)"

definition offsetNone :: "Series list \<Rightarrow> Series list" where
  "offsetNone sz = (case sz of [] \<Rightarrow> [] | s # rest \<Rightarrow> s # offsetNone_from (points s) rest)"

definition d3_stack :: "string list \<Rightarrow> Bucket list \<Rightarrow> Series list" where
  "d3_stack ks ds = offsetNone (map (stackSeries ds) ks)"

section \<open>The aggregation of the effect\<close>

definition groupedData :: "DataPoint list \<Rightarrow> Bucket list" where
  "groupedData data = d3_group data date"

definition categories :: "DataPoint list \<Rightarrow> string list" where
  "categories data = new_Set (map category data)"

definition stackedData :: "DataPoint list \<Rightarrow> Series list" where
  "stackedData data = d3_stack (categories data) (groupedData data)"

text \<open>The interval of category number \<open>i\<close> in bucket number \<open>j\<close>.\<close>

definition segment :: "Series list \<Rightarrow> nat \<Rightarrow> nat \<Rightarrow> SeriesPoint" where
  "segment sd i j = points (sd ! i) ! j"


section \<open>Scales\<close>

subsection \<open>\<^verbatim>\<open>d3.scaleLinear\<close>\<close>

text \<open>
  A linear scale with a two-point domain and range, not clamped. Applying it normalises
  the argument over the domain and interpolates the range. A domain of width zero does
  not divide: the normaliser is then the constant \<^verbatim>\<open>0.5\<close>.
\<close>

record LinearScale =
  ldomain :: "real \<times> real"
  lrange :: "real \<times> real"

definition d3_normalize :: "real \<Rightarrow> real \<Rightarrow> real \<Rightarrow> real" where
  "d3_normalize a b x = (if b - a \<noteq> 0 then (x - a) / (b - a) else 0.5)"

definition interpolateNumber :: "real \<Rightarrow> real \<Rightarrow> real \<Rightarrow> real" where
  "interpolateNumber a b t = a * (1 - t) + b * t"

definition bimap :: "real \<times> real \<Rightarrow> real \<times> real \<Rightarrow> real \<Rightarrow> real" where
  "bimap dm rg v =
     (if snd dm < fst dm
      then interpolateNumber (snd rg) (fst rg) (d3_normalize (snd dm) (fst dm) v)
      else interpolateNumber (fst rg) (snd rg) (d3_normalize (fst dm) (snd dm) v))"

definition linear_apply :: "LinearScale \<Rightarrow> real \<Rightarrow> real" where
  "linear_apply sc v = bimap (ldomain sc) (lrange sc) v"

subsection \<open>\<^verbatim>\<open>d3.scaleBand\<close>\<close>

text \<open>
  A band scale over a domain of distinct keys (the setter drops repeated keys), with the
  range, the paddings and the alignment. A key outside the domain is mapped to
  \<^verbatim>\<open>undefined\<close>. The divisor of the step is at least 1.
\<close>

record BandScale =
  bdomain :: "string list"
  brange :: "real \<times> real"
  paddingInner :: real
  paddingOuter :: real
  align :: real

fun index_of :: "'a \<Rightarrow> 'a list \<Rightarrow> nat option" where
  "index_of v [] = None"
| "index_of v (u # us) = (if u = v then Some 0 else map_option Suc (index_of v us))"

definition band_reverse :: "BandScale \<Rightarrow> bool" where
  "band_reverse sc = (snd (brange sc) < fst (brange sc))"

definition band_lo :: "BandScale \<Rightarrow> real" where
  "band_lo sc = (if band_reverse sc then snd (brange sc) else fst (brange sc))"

definition band_hi :: "BandScale \<Rightarrow> real" where
  "band_hi sc = (if band_reverse sc then fst (brange sc) else snd (brange sc))"

definition band_step :: "BandScale \<Rightarrow> real" where
  "band_step sc =
     (band_hi sc - band_lo sc) /
       max 1 (real (length (bdomain sc)) - paddingInner sc + paddingOuter sc * 2)"

definition band_start :: "BandScale \<Rightarrow> real" where
  "band_start sc =
     band_lo sc +
       (band_hi sc - band_lo sc
          - band_step sc * (real (length (bdomain sc)) - paddingInner sc)) * align sc"

definition bandwidth :: "BandScale \<Rightarrow> real" where
  "bandwidth sc = band_step sc * (1 - paddingInner sc)"

definition band_values :: "BandScale \<Rightarrow> real list" where
  "band_values sc =
     (let vs = map (\<lambda>i. band_start sc + band_step sc * real i) [0..<length (bdomain sc)]
      in if band_reverse sc then rev vs else vs)"

definition band_apply :: "BandScale \<Rightarrow> string \<Rightarrow> real option" where
  "band_apply sc d = map_option (\<lambda>i. band_values sc ! i) (index_of d (bdomain sc))"

text \<open>
  \<^verbatim>\<open>d3.scaleBand().domain(keys).range([r0, r1]).padding(p)\<close>: the padding sets the
  outer padding to \<^verbatim>\<open>p\<close> and the inner one to \<^verbatim>\<open>min(1, p)\<close>; the alignment keeps
  its default \<^verbatim>\<open>0.5\<close>.
\<close>

definition scaleBand :: "string list \<Rightarrow> real \<times> real \<Rightarrow> real \<Rightarrow> BandScale" where
  "scaleBand ks r p =
     \<lparr>bdomain = new_Set ks, brange = r, paddingInner = min 1 p, paddingOuter = p,
      align = 0.5\<rparr>"

subsection \<open>The scales of the effect\<close>

text \<open>The margins are \<^verbatim>\<open>{ top: 20, right: 120, bottom: 30, left: 40 }\<close>.\<close>

definition innerWidth :: "real \<Rightarrow> real" where
  "innerWidth width = width - 40 - 120"

definition innerHeight :: "real \<Rightarrow> real" where
  "innerHeight height = height - 20 - 30"

text \<open>
  \<^verbatim>\<open>d3.max(stackedData[stackedData.length - 1], d => d[1]) || 0\<close>. With no series
  the index \<^verbatim>\<open>-1\<close> reads \<^verbatim>\<open>undefined\<close>, and \<^verbatim>\<open>d3.max\<close> raises on iterating it.
\<close>

definition maxDataValue :: "Series list \<Rightarrow> error + real" where
  "maxDataValue sd =
     (if sd = [] then Inl TypeError
      else Inr (or0 (d3_max (map p1 (points (last sd))))))"

definition maxTargetValue :: "QuarterlyTarget list \<Rightarrow> real" where
  "maxTargetValue ts = or0 (d3_max (map tvalue ts))"

text \<open>\<^verbatim>\<open>Math.max(maxDataValue, maxTargetValue)\<close>, in the variant with targets.\<close>

definition maxValue :: "Series list \<Rightarrow> QuarterlyTarget list \<Rightarrow> error + real" where
  "maxValue sd ts =
     (case maxDataValue sd of
        Inl e \<Rightarrow> Inl e
      | Inr m \<Rightarrow> Inr (max m (maxTargetValue ts)))"

definition xScale :: "Bucket list \<Rightarrow> real \<Rightarrow> BandScale" where
  "xScale gd width = scaleBand (map fst gd) (0, innerWidth width) 0.1"

text \<open>The value scale of the variant without targets.\<close>

definition yScale1 :: "Series list \<Rightarrow> real \<Rightarrow> error + LinearScale" where
  "yScale1 sd height =
     (case maxDataValue sd of
        Inl e \<Rightarrow> Inl e
      | Inr m \<Rightarrow> Inr \<lparr>ldomain = (0, m), lrange = (innerHeight height, 0)\<rparr>)"

text \<open>The value scale of the variant with targets.\<close>

definition yScale :: "Series list \<Rightarrow> QuarterlyTarget list \<Rightarrow> real \<Rightarrow> error + LinearScale" where
  "yScale sd ts height =
     (case maxValue sd ts of
        Inl e \<Rightarrow> Inl e
      | Inr m \<Rightarrow> Inr \<lparr>ldomain = (0, m), lrange = (innerHeight height, 0)\<rparr>)"


section \<open>Drawing\<close>

text \<open>
  A rectangle of the chart, with the key of the category group that holds it, the series
  point bound to it, and its attributes at the end of the entrance transition (it starts
  at \<^verbatim>\<open>y = innerHeight\<close> with height 0).
\<close>

record Rect =
  rect_key :: string
  rect_datum :: SeriesPoint
  rect_x :: real
  rect_y :: real
  rect_width :: real
  rect_height :: real

definition bar :: "BandScale \<Rightarrow> LinearScale \<Rightarrow> string \<Rightarrow> SeriesPoint \<Rightarrow> Rect" where
  "bar xs ys k d =
     \<lparr>rect_key = k, rect_datum = d,
      rect_x = or0 (band_apply xs (fst (pdata d))),
      rect_y = linear_apply ys (p1 d),
      rect_width = bandwidth xs,
      rect_height = linear_apply ys (p0 d) - linear_apply ys (p1 d)\<rparr>"

definition bars :: "BandScale \<Rightarrow> LinearScale \<Rightarrow> Series list \<Rightarrow> Rect list" where
  "bars xs ys sd = concat (map (\<lambda>s. map (bar xs ys (key s)) (points s)) sd)"

text \<open>The points of the target line and the labels above them (position and value).\<close>

definition target_point :: "BandScale \<Rightarrow> LinearScale \<Rightarrow> QuarterlyTarget \<Rightarrow> real \<times> real" where
  "target_point xs ys t =
     (or0 (band_apply xs (tdate t)) + bandwidth xs / 2, linear_apply ys (tvalue t))"

definition target_label ::
  "BandScale \<Rightarrow> LinearScale \<Rightarrow> QuarterlyTarget \<Rightarrow> real \<times> real \<times> real" where
  "target_label xs ys t =
     (or0 (band_apply xs (tdate t)) + bandwidth xs / 2, linear_apply ys (tvalue t) - 5,
      tvalue t)"

text \<open>
  The effect is a sequence of operations on the document. It is modelled by the list of
  the operations it has performed, in order, and the exception that ended it, if any.
  The effect runs with the \<^verbatim>\<open>svg\<close> element mounted.
\<close>

datatype DomOp =
    SetSize real real
  | RemovePrevious
  | AppendContainer
  | CategoryGroups "string list"
  | TargetLine "(real \<times> real) list"
  | TargetLabels "(real \<times> real \<times> real) list"
  | Bars "Rect list"
  | Axes BandScale LinearScale
  | Legend "string list"

text \<open>The variant without targets.\<close>

definition useEffect1 :: "DataPoint list \<Rightarrow> real \<Rightarrow> real \<Rightarrow> DomOp list \<times> error option" where
  "useEffect1 data width height =
     (let pre = [SetSize width height, RemovePrevious, AppendContainer];
          gd = groupedData data;
          cs = categories data;
          sd = stackedData data;
          xs = xScale gd width
      in case yScale1 sd height of
           Inl e \<Rightarrow> (pre, Some e)
         | Inr ys \<Rightarrow>
             (pre @ [CategoryGroups (map key sd), Bars (bars xs ys sd), Axes xs ys, Legend cs],
              None))"

text \<open>The variant with targets.\<close>

definition useEffect ::
  "DataPoint list \<Rightarrow> QuarterlyTarget list \<Rightarrow> real \<Rightarrow> real \<Rightarrow> DomOp list \<times> error option" where
  "useEffect data ts width height =
     (let pre = [SetSize width height, RemovePrevious, AppendContainer];
          gd = groupedData data;
          cs = categories data;
          sd = stackedData data
      in case yScale sd ts height of
           Inl e \<Rightarrow> (pre, Some e)
         | Inr ys \<Rightarrow>
             (let xs = xScale gd width
              in (pre @ [CategoryGroups (map key sd),
                         TargetLine (map (target_point xs ys) ts),
                         TargetLabels (map (target_label xs ys) ts),
                         Bars (bars xs ys sd), Axes xs ys, Legend cs],
                  None)))"

fun op_bars :: "DomOp \<Rightarrow> Rect list" where
  "op_bars (Bars rs) = rs"
| "op_bars _ = []"

definition drawn_bars :: "DomOp list \<Rightarrow> Rect list" where
  "drawn_bars ops = concat (map op_bars ops)"

section \<open>Interaction\<close>

text \<open>
  The \<^verbatim>\<open>mouseover\<close> handler of a rectangle, given the pointer offset and the series
  point bound to the rectangle. The tooltip is placed at the offset less 10, and its
  text is the template \<^verbatim>\<open>`${category}: ${total}`\<close>, kept as its two interpolated
  parts. The handler's constant \<^verbatim>\<open>category\<close> is \<^verbatim>\<open>d.data[0]\<close>.
\<close>

record Tooltip =
  tt_x :: real
  tt_y :: real
  tt_label :: string
  tt_total :: real

definition mouseover :: "real \<times> real \<Rightarrow> SeriesPoint \<Rightarrow> Tooltip" where
  "mouseover offset d =
     (let total = p1 d - p0 d;
          category' = fst (pdata d)
      in \<lparr>tt_x = fst offset - 10, tt_y = snd offset - 10,
          tt_label = category', tt_total = total\<rparr>)"

text \<open>
  The opacity of a category group. The \<^verbatim>\<open>click\<close> handler of a legend entry reads
  the style as it is at the moment of the click and writes the new value through
  \<^verbatim>\<open>.transition()\<close>, so the state of a group is its present opacity, the transition
  that is running on it (the time it was created, the opacity it started from and its
  target), and the transition that has been created and has not started yet (the time
  it was created and its target). The style string is the numeral of the opacity:
  \<^verbatim>\<open>'1'\<close> is the opacity 1 and no other, \<^verbatim>\<open>'0.2'\<close> is the opacity 0.2. A group
  never styled has the computed opacity \<^verbatim>\<open>'1'\<close>.
\<close>

record GroupStyle =
  style_opacity :: real
  running :: "(real \<times> real \<times> real) option"
  scheduled :: "(real \<times> real) option"

type_synonym GroupStyles = "(string \<times> GroupStyle) list"

text \<open>A group at rest: no transition is running on it and none is waiting to start.\<close>

definition at_rest :: "real \<Rightarrow> GroupStyle" where
  "at_rest v = \<lparr>style_opacity = v, running = None, scheduled = None\<rparr>"

definition initial_styles :: "Series list \<Rightarrow> GroupStyles" where
  "initial_styles sd =
     map (\<lambda>s. (key s, \<lparr>style_opacity = 1, running = None, scheduled = None\<rparr>)) sd"

text \<open>
  A transition has the default timing: no delay, a duration of 250 and the easing
  \<^verbatim>\<open>easeCubicInOut\<close>,
  \<^verbatim>\<open>((t *= 2) <= 1 ? t * t * t : (t -= 2) * t * t + 2) / 2\<close>.
  At a timer frame a running transition sets the style to the interpolation of its two
  ends at the eased share of the time elapsed since it was created; when the duration
  has elapsed it sets the target and ends. A transition that was created starts at the
  next timer frame: it interrupts the one running on the group and takes the style it
  finds as its start. A transition created while another is still waiting to start
  takes its place (the later one would cancel it on starting).
\<close>

definition easeCubicInOut :: "real \<Rightarrow> real" where
  "easeCubicInOut t =
     (let u = t * 2
      in if u \<le> 1 then u * u * u else (u - 2) * (u - 2) * (u - 2) + 2) / 2"

definition transition_tick :: "real \<Rightarrow> GroupStyle \<Rightarrow> GroupStyle" where
  "transition_tick now g =
     (case running g of
        None \<Rightarrow> g
      | Some (t0, a, b) \<Rightarrow>
          if now - t0 < 250
          then g\<lparr>style_opacity := interpolateNumber a b (easeCubicInOut ((now - t0) / 250))\<rparr>
          else g\<lparr>style_opacity := b, running := None\<rparr>)"

definition transition_start :: "GroupStyle \<Rightarrow> GroupStyle" where
  "transition_start g =
     (case scheduled g of
        None \<Rightarrow> g
      | Some (t0, b) \<Rightarrow> g\<lparr>running := Some (t0, style_opacity g, b), scheduled := None\<rparr>)"

definition timer_frame :: "real \<Rightarrow> GroupStyle \<Rightarrow> GroupStyle" where
  "timer_frame now g = transition_tick now (transition_start (transition_tick now g))"

text \<open>
  The \<^verbatim>\<open>click\<close> handler of the legend entry of category \<open>c\<close>, at the time \<open>now\<close>:
  it reads the opacity of the first group of the selection filtered by the key, and
  creates on every group of that selection a transition to \<^verbatim>\<open>'0.2'\<close> when the
  opacity read is \<^verbatim>\<open>'1'\<close>, and to \<^verbatim>\<open>'1'\<close> otherwise. Reading the style of an empty
  selection raises.
\<close>

definition legend_click :: "real \<Rightarrow> string \<Rightarrow> GroupStyles \<Rightarrow> error + GroupStyles" where
  "legend_click now c gs =
     (case filter (\<lambda>g. fst g = c) gs of
        [] \<Rightarrow> Inl TypeError
      | g # _ \<Rightarrow>
          (let opacity = style_opacity (snd g)
           in Inr (map (\<lambda>g'. if fst g' = c
                              then (fst g', (snd g')\<lparr>scheduled :=
                                      Some (now, if opacity = 1 then 0.2 else 1)\<rparr>)
                              else g') gs)))"

text \<open>
  What happens to the groups over time: clicks on legend entries and timer frames, each
  with its time. A timer frame runs the transitions of all groups.
\<close>

datatype Event = Click real string | Frame real

fun run :: "Event list \<Rightarrow> GroupStyles \<Rightarrow> error + GroupStyles" where
  "run [] gs = Inr gs"
| "run (Click now c # es) gs =
     (case legend_click now c gs of Inl e \<Rightarrow> Inl e | Inr gs' \<Rightarrow> run es gs')"
| "run (Frame now # es) gs = run es (map (\<lambda>g. (fst g, timer_frame now (snd g))) gs)"

text \<open>
  The \<^verbatim>\<open>onChange\<close> handler of the input of target number \<open>index\<close>. The inputs are
  made by mapping over the targets, so the index is within the array.
\<close>

definition setTarget :: "QuarterlyTarget list \<Rightarrow> nat \<Rightarrow> real \<Rightarrow> QuarterlyTarget list" where
  "setTarget ts index v = ts[index := (ts ! index)\<lparr>tvalue := v\<rparr>]"

section \<open>Sample inputs\<close>

text \<open>The data and the targets a chart without \<^verbatim>\<open>initialData\<close> starts with.\<close>

definition defaultData :: "DataPoint list" where
  "defaultData =
     [\<lparr>date = ''2024-01'', category = ''A'', val = 20\<rparr>,
      \<lparr>date = ''2024-01'', category = ''B'', val = 30\<rparr>,
      \<lparr>date = ''2024-01'', category = ''C'', val = 15\<rparr>,
      \<lparr>date = ''2024-02'', category = ''A'', val = 25\<rparr>,
      \<lparr>date = ''2024-02'', category = ''B'', val = 35\<rparr>,
      \<lparr>date = ''2024-02'', category = ''C'', val = 20\<rparr>,
      \<lparr>date = ''2024-03'', category = ''A'', val = 30\<rparr>,
      \<lparr>date = ''2024-03'', category = ''B'', val = 25\<rparr>,
      \<lparr>date = ''2024-03'', category = ''C'', val = 25\<rparr>]"

definition defaultTargets :: "QuarterlyTarget list" where
  "defaultTargets =
     [\<lparr>tdate = ''2024-01'', tvalue = 50\<rparr>,
      \<lparr>tdate = ''2024-02'', tvalue = 60\<rparr>,
      \<lparr>tdate = ''2024-03'', tvalue = 70\<rparr>]"

text \<open>The records of scenario A, and one target of 50 for their bucket.\<close>

definition scenarioA :: "DataPoint list" where
  "scenarioA =
     [\<lparr>date = ''2024-01'', category = ''A'', val = 20\<rparr>,
      \<lparr>date = ''2024-01'', category = ''B'', val = 30\<rparr>]"

definition scenarioTargets :: "QuarterlyTarget list" where
  "scenarioTargets = [\<lparr>tdate = ''2024-01'', tvalue = 50\<rparr>]"

text \<open>A bucket with two records of one category, and a record set of zeros.\<close>

definition duplicateData :: "DataPoint list" where
  "duplicateData =
     [\<lparr>date = ''2024-01'', category = ''A'', val = 20\<rparr>,
      \<lparr>date = ''2024-01'', category = ''A'', val = 30\<rparr>]"

definition zeroData :: "DataPoint list" where
  "zeroData =
     [\<lparr>date = ''2024-01'', category = ''A'', val = 0\<rparr>,
      \<lparr>date = ''2024-01'', category = ''B'', val = 0\<rparr>]"

text \<open>The default targets after each input has been set to 0.\<close>

definition zeroTargets :: "QuarterlyTarget list" where
  "zeroTargets = setTarget (setTarget (setTarget defaultTargets 0 0) 1 0) 2 0"

text \<open>The groups of the default chart, at rest, with category B dimmed.\<close>

definition dimmedB :: GroupStyles where
  "dimmedB = [(''A'', at_rest 1), (''B'', at_rest 0.2), (''C'', at_rest 1)]"

text \<open>Two buckets, each without a record of the other's category.\<close>

definition sparseData :: "DataPoint list" where
  "sparseData =
     [\<lparr>date = ''2024-01'', category = ''A'', val = 20\<rparr>,
      \<lparr>date = ''2024-02'', category = ''B'', val = 30\<rparr>]"

text \<open>A bucket whose category A appears twice, after a record of B and around another bucket.\<close>

definition mixedData :: "DataPoint list" where
  "mixedData =
     [\<lparr>date = ''2024-01'', category = ''B'', val = 5\<rparr>,
      \<lparr>date = ''2024-01'', category = ''A'', val = 20\<rparr>,
      \<lparr>date = ''2024-02'', category = ''A'', val = 7\<rparr>,
      \<lparr>date = ''2024-01'', category = ''A'', val = 30\<rparr>]"

section \<open>Notions of the specification\<close>

text \<open>
  The position at which a value first appears in a sequence, and what it means for a
  list to hold the values of a sequence in first-appearance order: each value once, and
  earlier first appearances first.
\<close>

definition first_index :: "'a list \<Rightarrow> 'a \<Rightarrow> nat" where
  "first_index xs x = length (takeWhile (\<lambda>y. y \<noteq> x) xs)"

definition first_appearance_order :: "'a list \<Rightarrow> 'a list \<Rightarrow> bool" where
  "first_appearance_order xs ys \<longleftrightarrow>
     distinct ys \<and> set ys = set xs \<and>
     sorted_wrt (\<lambda>a b. first_index xs a < first_index xs b) ys"

text \<open>
  The greatest stack height: the greatest top, over the buckets, of the interval of the
  last category. The greatest overlay value: the greatest target, and 0 without targets.
\<close>

definition maxStackHeight :: "DataPoint list \<Rightarrow> real" where
  "maxStackHeight data = Max (set (map p1 (points (last (stackedData data)))))"

definition maxOverlayValue :: "QuarterlyTarget list \<Rightarrow> real" where
  "maxOverlayValue ts = (if ts = [] then 0 else Max (set (map tvalue ts)))"

text \<open>The records of the input that belong to a bucket, in input order.\<close>

definition bucket_records :: "DataPoint list \<Rightarrow> string \<Rightarrow> DataPoint list" where
  "bucket_records data b = filter (\<lambda>d. date d = b) data"

section \<open>First-appearance order of the keys\<close>

lemma new_Set_snoc: "new_Set (xs @ [x]) = Set_add (new_Set xs) x"
  by (simp add: new_Set_def)

lemma set_new_Set: "set (new_Set xs) = set xs"
  by (induction xs rule: rev_induct) (auto simp: new_Set_snoc Set_add_def new_Set_def)

lemma distinct_new_Set: "distinct (new_Set xs)"
  by (induction xs rule: rev_induct) (auto simp: new_Set_snoc Set_add_def new_Set_def)

lemma first_index_append_mem: "a \<in> set xs \<Longrightarrow> first_index (xs @ zs) a = first_index xs a"
  by (induction xs) (auto simp: first_index_def)

lemma first_index_less: "a \<in> set xs \<Longrightarrow> first_index xs a < length xs"
  by (induction xs) (auto simp: first_index_def)

lemma first_index_snoc_new: "x \<notin> set xs \<Longrightarrow> first_index (xs @ [x]) x = length xs"
  by (induction xs) (auto simp: first_index_def)

lemma sorted_new_Set:
  "sorted_wrt (\<lambda>a b. first_index xs a < first_index xs b) (new_Set xs)"
proof (induction xs rule: rev_induct)
  case Nil
  then show ?case by (simp add: new_Set_def)
next
  case (snoc x xs)
  have mono: "sorted_wrt (\<lambda>a b. first_index (xs @ [x]) a < first_index (xs @ [x]) b) (new_Set xs)"
    using snoc.IH
    by (rule sorted_wrt_mono_rel[rotated]) (simp add: set_new_Set first_index_append_mem)
  show ?case
  proof (cases "x \<in> set xs")
    case True
    then show ?thesis using mono by (simp add: new_Set_snoc Set_add_def set_new_Set)
  next
    case False
    then show ?thesis using mono
      by (auto simp: new_Set_snoc Set_add_def set_new_Set sorted_wrt_append
          first_index_append_mem first_index_snoc_new first_index_less)
  qed
qed

lemma new_Set_first_appearance: "first_appearance_order xs (new_Set xs)"
  by (simp add: first_appearance_order_def set_new_Set distinct_new_Set sorted_new_Set)


section \<open>The groups and the stack in closed form\<close>

lemma d3_group_snoc: "d3_group (vs @ [v]) keyof = group_add keyof (d3_group vs keyof) v"
  by (simp add: d3_group_def)

lemma group_add_known:
  "distinct ks \<Longrightarrow> keyof v \<in> set ks \<Longrightarrow>
   group_add keyof (map (\<lambda>k. (k, f k)) ks) v =
   map (\<lambda>k. (k, if k = keyof v then f k @ [v] else f k)) ks"
  by (induction ks) auto

lemma group_add_new:
  "keyof v \<notin> set ks \<Longrightarrow>
   group_add keyof (map (\<lambda>k. (k, f k)) ks) v = map (\<lambda>k. (k, f k)) ks @ [(keyof v, [v])]"
  by (induction ks) auto

lemma d3_group_eq:
  "d3_group vs keyof = map (\<lambda>k. (k, filter (\<lambda>v. keyof v = k) vs)) (new_Set (map keyof vs))"
proof (induction vs rule: rev_induct)
  case Nil
  then show ?case by (simp add: d3_group_def new_Set_def)
next
  case (snoc v vs)
  let ?ks = "new_Set (map keyof vs)"
  show ?case
  proof (cases "keyof v \<in> set ?ks")
    case True
    have "group_add keyof (map (\<lambda>k. (k, filter (\<lambda>v. keyof v = k) vs)) ?ks) v =
          map (\<lambda>k. (k, if k = keyof v then filter (\<lambda>v. keyof v = k) vs @ [v]
                          else filter (\<lambda>v. keyof v = k) vs)) ?ks"
      using True by (intro group_add_known distinct_new_Set)
    then show ?thesis
      using True by (auto simp: d3_group_snoc snoc.IH new_Set_snoc Set_add_def)
  next
    case False
    have "group_add keyof (map (\<lambda>k. (k, filter (\<lambda>v. keyof v = k) vs)) ?ks) v =
          map (\<lambda>k. (k, filter (\<lambda>v. keyof v = k) vs)) ?ks @ [(keyof v, [v])]"
      using False by (rule group_add_new)
    moreover have "filter (\<lambda>w. keyof w = keyof v) vs = []"
    proof -
      have "\<forall>w\<in>set vs. keyof w \<noteq> keyof v"
        using False by (metis set_new_Set set_map imageI)
      then show ?thesis by (simp add: filter_empty_conv)
    qed
    ultimately show ?thesis
      using False by (auto simp: d3_group_snoc snoc.IH new_Set_snoc Set_add_def set_new_Set)
  qed
qed

lemma offsetNone_from_length: "length (offsetNone_from s0 sz) = length sz"
  by (induction sz arbitrary: s0) (auto simp: Let_def)

lemma offsetNone_from_key:
  "i < length sz \<Longrightarrow> key (offsetNone_from s0 sz ! i) = key (sz ! i)"
  by (induction sz arbitrary: s0 i) (auto simp: Let_def nth_Cons split: nat.splits)

lemma offsetNone_from_segment:
  "i < length ks \<Longrightarrow> length s0 = length ds \<Longrightarrow>
   points (offsetNone_from s0 (map (stackSeries ds) ks) ! i) =
   map2 (\<lambda>a d. \<lparr>p0 = p1 a + sum_list (map (stack_value d) (take i ks)),
                p1 = p1 a + sum_list (map (stack_value d) (take (Suc i) ks)),
                pdata = d\<rparr>) s0 ds"
proof (induction ks arbitrary: s0 i)
  case Nil
  then show ?case by simp
next
  case (Cons k ks)
  let ?s1 = "map2 lift_point s0 (points (stackSeries ds k))"
  have s1: "?s1 = map2 (\<lambda>a d. \<lparr>p0 = p1 a, p1 = p1 a + stack_value d k, pdata = d\<rparr>) s0 ds"
    using Cons.prems(2)
    by (intro nth_equalityI) (auto simp: stackSeries_def lift_point_def)
  show ?case
  proof (cases i)
    case 0
    then show ?thesis by (simp add: Let_def s1)
  next
    case (Suc i')
    have len: "length ?s1 = length ds" using Cons.prems(2) by (simp add: stackSeries_def)
    have "points (offsetNone_from ?s1 (map (stackSeries ds) ks) ! i') =
          map2 (\<lambda>a d. \<lparr>p0 = p1 a + sum_list (map (stack_value d) (take i' ks)),
                p1 = p1 a + sum_list (map (stack_value d) (take (Suc i') ks)),
                pdata = d\<rparr>) ?s1 ds"
      using Cons.prems(1) Suc by (intro Cons.IH len) simp
    also have "\<dots> = map2 (\<lambda>a d. \<lparr>p0 = p1 a + sum_list (map (stack_value d) (take i (k # ks))),
                p1 = p1 a + sum_list (map (stack_value d) (take (Suc i) (k # ks))),
                pdata = d\<rparr>) s0 ds"
      using Cons.prems(2) unfolding s1
      by (intro nth_equalityI) (auto simp: Suc)
    finally show ?thesis by (simp add: Suc Let_def)
  qed
qed

lemma d3_stack_length: "length (d3_stack ks ds) = length ks"
  by (cases ks) (simp_all add: d3_stack_def offsetNone_def offsetNone_from_length)

lemma d3_stack_key: "i < length ks \<Longrightarrow> key (d3_stack ks ds ! i) = ks ! i"
  by (cases ks)
     (auto simp: d3_stack_def offsetNone_def offsetNone_from_key stackSeries_def nth_Cons
           split: nat.splits)

lemma d3_stack_points:
  assumes "i < length ks"
  shows "points (d3_stack ks ds ! i) =
         map (\<lambda>d. \<lparr>p0 = sum_list (map (stack_value d) (take i ks)),
                    p1 = sum_list (map (stack_value d) (take (Suc i) ks)),
                    pdata = d\<rparr>) ds"
proof (cases ks)
  case Nil
  with assms show ?thesis by simp
next
  case (Cons k ks')
  show ?thesis
  proof (cases i)
    case 0
    then show ?thesis by (simp add: Cons d3_stack_def offsetNone_def stackSeries_def)
  next
    case (Suc i')
    have "points (offsetNone_from (points (stackSeries ds k)) (map (stackSeries ds) ks') ! i') =
          map2 (\<lambda>a d. \<lparr>p0 = p1 a + sum_list (map (stack_value d) (take i' ks')),
                p1 = p1 a + sum_list (map (stack_value d) (take (Suc i') ks')),
                pdata = d\<rparr>) (points (stackSeries ds k)) ds"
      using assms Cons Suc by (intro offsetNone_from_segment) (simp_all add: stackSeries_def)
    also have "\<dots> = map (\<lambda>d. \<lparr>p0 = sum_list (map (stack_value d) (take i ks)),
                    p1 = sum_list (map (stack_value d) (take (Suc i) ks)),
                    pdata = d\<rparr>) ds"
      by (intro nth_equalityI) (auto simp: Suc Cons stackSeries_def)
    finally show ?thesis by (simp add: Cons Suc d3_stack_def offsetNone_def)
  qed
qed

lemma d3_stack_segment:
  "i < length ks \<Longrightarrow> j < length ds \<Longrightarrow>
   segment (d3_stack ks ds) i j =
     \<lparr>p0 = sum_list (map (stack_value (ds ! j)) (take i ks)),
      p1 = sum_list (map (stack_value (ds ! j)) (take (Suc i) ks)),
      pdata = ds ! j\<rparr>"
  by (simp add: segment_def d3_stack_points)

lemma segment_height:
  "i < length ks \<Longrightarrow> j < length ds \<Longrightarrow>
   p1 (segment (d3_stack ks ds) i j) - p0 (segment (d3_stack ks ds) i j) =
   stack_value (ds ! j) (ks ! i)"
  by (simp add: d3_stack_segment take_Suc_conv_app_nth)

lemma first_index_nth: "a \<in> set xs \<Longrightarrow> xs ! first_index xs a = a"
  by (induction xs) (auto simp: first_index_def)

lemma first_index_inj: "inj_on (first_index xs) (set xs)"
  by (rule inj_onI) (metis first_index_nth)

lemma first_appearance_order_unique:
  assumes "first_appearance_order xs ys" and "first_appearance_order xs zs"
  shows "ys = zs"
proof -
  let ?f = "first_index xs"
  have ys: "sorted_wrt (<) (map ?f ys)" and zs: "sorted_wrt (<) (map ?f zs)"
    using assms by (simp_all add: first_appearance_order_def sorted_wrt_map)
  have "set (map ?f ys) = set (map ?f zs)"
    using assms by (simp add: first_appearance_order_def)
  then have "map ?f ys = map ?f zs"
    using ys zs by (intro sorted_distinct_set_unique) (simp_all add: strict_sorted_iff)
  moreover have "inj_on ?f (set ys \<union> set zs)"
    using assms first_index_inj[of xs] by (simp add: first_appearance_order_def)
  ultimately show ?thesis by (simp add: inj_on_map_eq_map)
qed

lemma groupedData_eq:
  "groupedData data = map (\<lambda>k. (k, bucket_records data k)) (new_Set (map date data))"
  by (simp add: groupedData_def d3_group_eq bucket_records_def)

lemma groupedData_keys: "map fst (groupedData data) = new_Set (map date data)"
  by (simp add: groupedData_eq comp_def)

lemma stackedData_keys: "map key (stackedData data) = categories data"
  by (intro nth_equalityI) (simp_all add: stackedData_def d3_stack_length d3_stack_key)

section \<open>The value accessor and the sums of a bucket\<close>

lemma or0_simps: "or0 None = 0" "or0 (Some v) = v"
  by (simp_all add: or0_def)

lemma stack_value_Nil: "stack_value (b, []) k = 0"
  by (simp add: stack_value_def or0_simps)

lemma stack_value_Cons:
  "stack_value (b, d # ds) k = (if category d = k then val d else stack_value (b, ds) k)"
  by (simp add: stack_value_def or0_simps)

lemma stack_value_missing:
  "\<forall>d\<in>set ds. category d \<noteq> k \<Longrightarrow> stack_value (b, ds) k = 0"
  by (induction ds) (simp_all add: stack_value_Nil stack_value_Cons)

lemma stack_value_first:
  "\<forall>d\<in>set pre. category d \<noteq> k \<Longrightarrow> category d = k \<Longrightarrow>
   stack_value (b, pre @ d # post) k = val d"
  by (induction pre) (simp_all add: stack_value_Cons)

lemma stack_value_find:
  "find (\<lambda>d. category d = k) ds = Some d \<Longrightarrow> stack_value (b, ds) k = val d"
  by (simp add: stack_value_def or0_simps)

lemma find_filter: "find P (filter Q xs) = find (\<lambda>x. Q x \<and> P x) xs"
  by (induction xs) auto

lemma sum_list_if_one:
  fixes f :: "'a \<Rightarrow> real"
  shows "distinct ks \<Longrightarrow> c \<in> set ks \<Longrightarrow> f c = 0 \<Longrightarrow>
         sum_list (map (\<lambda>k. if c = k then v else f k) ks) = v + sum_list (map f ks)"
proof (induction ks)
  case Nil
  then show ?case by simp
next
  case (Cons k ks)
  show ?case
  proof (cases "c = k")
    case True
    then have "c \<notin> set ks" using Cons.prems(1) by simp
    then have "sum_list (map (\<lambda>k. if c = k then v else f k) ks) = sum_list (map f ks)"
      by (intro arg_cong[where f = sum_list] map_cong) auto
    then show ?thesis using True Cons.prems(3) by simp
  next
    case False
    then show ?thesis using Cons by simp
  qed
qed

lemma sum_stack_value:
  "distinct ks \<Longrightarrow> distinct (map category ds) \<Longrightarrow> category ` set ds \<subseteq> set ks \<Longrightarrow>
   sum_list (map (stack_value (b, ds)) ks) = sum_list (map val ds)"
proof (induction ds)
  case Nil
  then show ?case by (simp add: stack_value_Nil)
next
  case (Cons d ds)
  have zero: "stack_value (b, ds) (category d) = 0"
    using Cons.prems(2) by (intro stack_value_missing) (auto simp: image_iff)
  have "sum_list (map (stack_value (b, d # ds)) ks) =
        sum_list (map (\<lambda>k. if category d = k then val d else stack_value (b, ds) k) ks)"
    by (intro arg_cong[where f = sum_list] map_cong) (simp_all add: stack_value_Cons)
  also have "\<dots> = val d + sum_list (map (stack_value (b, ds)) ks)"
    using Cons.prems zero by (intro sum_list_if_one) simp_all
  also have "\<dots> = val d + sum_list (map val ds)"
    using Cons by simp
  finally show ?case by simp
qed

lemma distinct_bucket_categories:
  "distinct (map (\<lambda>d. (date d, category d)) data) \<Longrightarrow>
   distinct (map category (bucket_records data b))"
proof (induction data)
  case Nil
  then show ?case by (simp add: bucket_records_def)
next
  case (Cons d data)
  have IH: "distinct (map category (bucket_records data b))"
    using Cons by simp
  show ?case
  proof (cases "date d = b")
    case False
    then show ?thesis using IH by (simp add: bucket_records_def)
  next
    case True
    have "category d \<notin> category ` set (bucket_records data b)"
    proof
      assume "category d \<in> category ` set (bucket_records data b)"
      then obtain e where "e \<in> set data" "date e = date d" "category e = category d"
        using True by (auto simp: bucket_records_def)
      then have "(date d, category d) \<in> (\<lambda>d. (date d, category d)) ` set data"
        by (metis (mono_tags, lifting) imageI)
      then show False using Cons.prems by simp
    qed
    then show ?thesis using IH True by (simp add: bucket_records_def)
  qed
qed

lemma groupedData_length: "length (groupedData data) = length (new_Set (map date data))"
  by (simp add: groupedData_eq)

lemma groupedData_nth:
  "j < length (groupedData data) \<Longrightarrow>
   groupedData data ! j = (fst (groupedData data ! j), bucket_records data (fst (groupedData data ! j)))"
  by (simp add: groupedData_eq)

lemma stackedData_length: "length (stackedData data) = length (categories data)"
  by (simp add: stackedData_def d3_stack_length)

lemma stackedData_segment:
  "i < length (categories data) \<Longrightarrow> j < length (groupedData data) \<Longrightarrow>
   segment (stackedData data) i j =
     \<lparr>p0 = sum_list (map (stack_value (groupedData data ! j)) (take i (categories data))),
      p1 = sum_list (map (stack_value (groupedData data ! j)) (take (Suc i) (categories data))),
      pdata = groupedData data ! j\<rparr>"
  by (simp add: stackedData_def d3_stack_segment)

lemma stackedData_height:
  "i < length (categories data) \<Longrightarrow> j < length (groupedData data) \<Longrightarrow>
   p1 (segment (stackedData data) i j) - p0 (segment (stackedData data) i j) =
   stack_value (groupedData data ! j) (categories data ! i)"
  by (simp add: stackedData_def segment_height)

lemma heights_sum:
  assumes "j < length (groupedData data)"
  shows "(\<Sum>s\<leftarrow>stackedData data. p1 (points s ! j) - p0 (points s ! j)) =
         sum_list (map (stack_value (groupedData data ! j)) (categories data))"
proof -
  let ?sd = "stackedData data" and ?ks = "categories data"
  have "(\<Sum>s\<leftarrow>?sd. p1 (points s ! j) - p0 (points s ! j)) =
        (\<Sum>i\<leftarrow>[0..<length ?sd]. p1 (segment ?sd i j) - p0 (segment ?sd i j))"
    unfolding segment_def by (subst (1) map_nth[of ?sd, symmetric]) (simp only: map_map comp_def)
  also have "\<dots> = (\<Sum>i\<leftarrow>[0..<length ?ks]. stack_value (groupedData data ! j) (?ks ! i))"
    unfolding stackedData_length using assms
    by (intro arg_cong[where f = sum_list] map_cong) (simp_all add: stackedData_height)
  also have "\<dots> = sum_list (map (stack_value (groupedData data ! j)) ?ks)"
    by (subst (2) map_nth[of ?ks, symmetric]) (simp only: map_map comp_def)
  finally show ?thesis .
qed

lemma categories_nonempty: "data \<noteq> [] \<Longrightarrow> categories data \<noteq> []"
  by (metis categories_def set_new_Set set_map list.map_disc_iff set_empty)

lemma groupedData_empty: "groupedData [] = []"
  by (simp add: groupedData_def d3_group_def)

lemma top_of_last:
  assumes "j < length (groupedData data)"
  shows "p1 (points (last (stackedData data)) ! j) =
         sum_list (map (stack_value (groupedData data ! j)) (categories data))"
proof -
  have "data \<noteq> []" using assms by (auto simp: groupedData_empty)
  then have ne: "categories data \<noteq> []" by (rule categories_nonempty)
  then have n: "length (categories data) - 1 < length (categories data)" by simp
  have "stackedData data \<noteq> []"
    using ne stackedData_length[of data] by (metis length_0_conv)
  then have "last (stackedData data) = stackedData data ! (length (categories data) - 1)"
    by (simp add: last_conv_nth stackedData_length)
  then have "p1 (points (last (stackedData data)) ! j) =
        p1 (segment (stackedData data) (length (categories data) - 1) j)"
    by (simp add: segment_def)
  also have "\<dots> = sum_list (map (stack_value (groupedData data ! j))
                          (take (Suc (length (categories data) - 1)) (categories data)))"
    by (simp only: stackedData_segment[OF n assms] SeriesPoint.select_convs)
  also have "\<dots> = sum_list (map (stack_value (groupedData data ! j)) (categories data))"
    using ne by simp
  finally show ?thesis .
qed

lemma bucket_sum:
  assumes "distinct (map (\<lambda>d. (date d, category d)) data)" and "j < length (groupedData data)"
  shows "sum_list (map (stack_value (groupedData data ! j)) (categories data)) =
         sum_list (map val (bucket_records data (fst (groupedData data ! j))))"
proof -
  let ?b = "fst (groupedData data ! j)"
  have "category ` set (bucket_records data ?b) \<subseteq> set (categories data)"
    by (auto simp: bucket_records_def categories_def set_new_Set)
  then have "sum_list (map (stack_value (?b, bucket_records data ?b)) (categories data)) =
        sum_list (map val (bucket_records data ?b))"
    using assms(1)
    by (intro sum_stack_value distinct_bucket_categories) (simp_all add: categories_def distinct_new_Set)
  then show ?thesis using groupedData_nth[OF assms(2)] by simp
qed

lemma find_first:
  "\<forall>e\<in>set pre. \<not> P e \<Longrightarrow> P d \<Longrightarrow> find P (pre @ d # post) = Some d"
  by (induction pre) simp_all

text \<open>The definitions that evaluate the aggregation on a concrete input.\<close>

lemmas eval_defs = stackedData_def categories_def groupedData_def d3_group_def
      new_Set_def Set_add_def d3_stack_def offsetNone_def stackSeries_def stack_value_def
      or0_def lift_point_def bucket_records_def segment_def

section \<open>Order of categories and buckets\<close>

text \<open>
  Claim C3 (order stability). For every record array, the categories derived by the
  aggregation are the category values of the input in first-appearance order, and the
  bucket keys are the \<^verbatim>\<open>date\<close> values of the input in first-appearance order. The
  series of the stack follow the order of the categories. By
  \<open>first_appearance_order_unique\<close> that order determines the list.
\<close>

theorem order_stability:
  "first_appearance_order (map category data) (categories data) \<and>
   first_appearance_order (map date data) (map fst (groupedData data)) \<and>
   map key (stackedData data) = categories data"
  by (simp add: categories_def groupedData_keys new_Set_first_appearance stackedData_keys[unfolded categories_def])

section \<open>Scenario A\<close>

text \<open>
  Claim C2 (scenario A). The records \<^verbatim>\<open>{2024-01, A, 20}\<close> and \<^verbatim>\<open>{2024-01, B, 30}\<close>
  give, for the bucket \<^verbatim>\<open>2024-01\<close>, the interval \<open>[0, 20]\<close> for category A and
  \<open>[20, 50]\<close> for category B. The maximum computed from the stack is 50, and it is the
  upper end of the value domain in the variant without targets, and in the variant with
  targets when the only target is 50.
\<close>

theorem scenario_A:
  "map (\<lambda>s. (key s, map (\<lambda>p. (fst (pdata p), p0 p, p1 p)) (points s))) (stackedData scenarioA) =
     [(''A'', [(''2024-01'', 0, 20)]), (''B'', [(''2024-01'', 20, 50)])] \<and>
   maxDataValue (stackedData scenarioA) = Inr 50 \<and>
   map_sum id ldomain (yScale1 (stackedData scenarioA) height) = Inr (0, 50) \<and>
   map_sum id ldomain (yScale (stackedData scenarioA) scenarioTargets height) = Inr (0, 50)"
  by (simp add: scenarioA_def scenarioTargets_def stackedData_def categories_def groupedData_def d3_group_def
      new_Set_def Set_add_def d3_stack_def offsetNone_def stackSeries_def stack_value_def
      or0_def lift_point_def maxDataValue_def d3_max_def yScale1_def yScale_def maxValue_def maxTargetValue_def)

section \<open>The stack of a bucket\<close>

text \<open>
  Claim C1 (stack sum invariant), as amended. For every record array in which no bucket
  holds two records of the same category, and for every bucket of it: the heights (top
  minus baseline) of the intervals of the categories sum to the sum of the values of the
  records of the input in that bucket, and the top of the interval of the last category
  is that sum too.
\<close>

theorem stack_sum_invariant:
  assumes "distinct (map (\<lambda>d. (date d, category d)) data)" and "j < length (groupedData data)"
  shows "(\<Sum>s\<leftarrow>stackedData data. p1 (points s ! j) - p0 (points s ! j)) =
           sum_list (map val (bucket_records data (fst (groupedData data ! j)))) \<and>
         p1 (points (last (stackedData data)) ! j) =
           sum_list (map val (bucket_records data (fst (groupedData data ! j))))"
  using assms by (simp add: heights_sum top_of_last bucket_sum)

theorem stack_sum_invariant_witness:
  "distinct (map (\<lambda>d. (date d, category d)) defaultData) \<and>
   1 < length (groupedData defaultData) \<and>
   (\<Sum>s\<leftarrow>stackedData defaultData. p1 (points s ! 1) - p0 (points s ! 1)) = 80 \<and>
   p1 (points (last (stackedData defaultData)) ! 1) = 80"
proof -
  have h1: "distinct (map (\<lambda>d. (date d, category d)) defaultData)"
    by (simp add: defaultData_def)
  have h2: "1 < length (groupedData defaultData)"
    by (simp add: defaultData_def eval_defs)
  have "sum_list (map val (bucket_records defaultData (fst (groupedData defaultData ! 1)))) = 80"
    by (simp add: defaultData_def eval_defs)
  with stack_sum_invariant[OF h1 h2] h1 h2 show ?thesis by simp
qed

text \<open>
  Claim C1 as stated fails where a bucket holds a category twice: of the records
  \<^verbatim>\<open>{2024-01, A, 20}\<close> and \<^verbatim>\<open>{2024-01, A, 30}\<close> the stack has one interval
  \<open>[0, 20]\<close>, while the values of the bucket sum to 50.
\<close>

theorem stack_sum_duplicates_counterexample:
  "(\<Sum>s\<leftarrow>stackedData duplicateData. p1 (points s ! 0) - p0 (points s ! 0)) = 20 \<and>
   p1 (points (last (stackedData duplicateData)) ! 0) = 20 \<and>
   sum_list (map val (snd (groupedData duplicateData ! 0))) = 50 \<and>
   (\<Sum>s\<leftarrow>stackedData duplicateData. p1 (points s ! 0) - p0 (points s ! 0)) \<noteq>
     sum_list (map val (snd (groupedData duplicateData ! 0)))"
  by (simp add: duplicateData_def eval_defs)

text \<open>
  Claim C9 (missing pair). For every record array, every bucket and every derived
  category: when no record of the input has both that bucket's key and that category,
  the value accessor gives 0 for the pair and the interval of the pair is empty (its top
  is its baseline). The aggregation has no error result at all.
\<close>

theorem missing_pair_default:
  assumes "i < length (categories data)" and "j < length (groupedData data)"
    and "\<forall>d\<in>set data. date d = fst (groupedData data ! j) \<longrightarrow> category d \<noteq> categories data ! i"
  shows "stack_value (groupedData data ! j) (categories data ! i) = 0 \<and>
         p1 (segment (stackedData data) i j) = p0 (segment (stackedData data) i j)"
proof -
  have "stack_value (fst (groupedData data ! j), bucket_records data (fst (groupedData data ! j)))
          (categories data ! i) = 0"
    using assms(3) by (intro stack_value_missing) (simp add: bucket_records_def)
  then have "stack_value (groupedData data ! j) (categories data ! i) = 0"
    using groupedData_nth[OF assms(2)] by simp
  then show ?thesis using stackedData_height[OF assms(1,2)] by simp
qed

theorem missing_pair_default_witness:
  "1 < length (categories sparseData) \<and> 0 < length (groupedData sparseData) \<and>
   fst (groupedData sparseData ! 0) = ''2024-01'' \<and> categories sparseData ! 1 = ''B'' \<and>
   stack_value (groupedData sparseData ! 0) (categories sparseData ! 1) = 0 \<and>
   p1 (segment (stackedData sparseData) 1 0) = p0 (segment (stackedData sparseData) 1 0)"
proof -
  have h1: "1 < length (categories sparseData)" and h2: "0 < length (groupedData sparseData)"
    and k: "fst (groupedData sparseData ! 0) = ''2024-01''" "categories sparseData ! 1 = ''B''"
    by (simp_all add: sparseData_def eval_defs)
  have h3: "\<forall>d\<in>set sparseData. date d = fst (groupedData sparseData ! 0) \<longrightarrow>
              category d \<noteq> categories sparseData ! 1"
    unfolding k by (simp add: sparseData_def)
  from missing_pair_default[OF h1 h2 h3] h1 h2 k show ?thesis by simp
qed

text \<open>
  Claim C10 (duplicate records). When the input is \<open>pre @ d # post\<close> and \<open>d\<close> is the
  first record with its bucket key and category (none in \<open>pre\<close> has both), then the
  height of the interval of that bucket and category is the value of \<open>d\<close>, whatever
  records of the same bucket and category follow in \<open>post\<close>.
\<close>

theorem duplicates_first_wins:
  assumes "i < length (categories data)" and "j < length (groupedData data)"
    and "data = pre @ d # post"
    and "date d = fst (groupedData data ! j)" and "category d = categories data ! i"
    and "\<forall>e\<in>set pre. \<not> (date e = date d \<and> category e = category d)"
  shows "p1 (segment (stackedData data) i j) - p0 (segment (stackedData data) i j) = val d"
proof -
  let ?b = "fst (groupedData data ! j)" and ?c = "categories data ! i"
  have "find (\<lambda>e. date e = ?b \<and> category e = ?c) data = Some d"
    using assms(4-6) unfolding assms(3) by (intro find_first) simp_all
  then have "find (\<lambda>e. category e = ?c) (bucket_records data ?b) = Some d"
    by (simp add: bucket_records_def find_filter)
  then have "stack_value (?b, bucket_records data ?b) ?c = val d"
    by (rule stack_value_find)
  then show ?thesis
    using groupedData_nth[OF assms(2)] stackedData_height[OF assms(1,2)] by simp
qed

theorem duplicates_first_wins_witness:
  "1 < length (categories mixedData) \<and> 0 < length (groupedData mixedData) \<and>
   mixedData = [\<lparr>date = ''2024-01'', category = ''B'', val = 5\<rparr>] @
               \<lparr>date = ''2024-01'', category = ''A'', val = 20\<rparr> #
               [\<lparr>date = ''2024-02'', category = ''A'', val = 7\<rparr>,
                \<lparr>date = ''2024-01'', category = ''A'', val = 30\<rparr>] \<and>
   p1 (segment (stackedData mixedData) 1 0) - p0 (segment (stackedData mixedData) 1 0) = 20"
proof -
  let ?pre = "[\<lparr>date = ''2024-01'', category = ''B'', val = 5\<rparr>]"
  let ?d = "\<lparr>date = ''2024-01'', category = ''A'', val = 20\<rparr>"
  let ?post = "[\<lparr>date = ''2024-02'', category = ''A'', val = 7\<rparr>,
                \<lparr>date = ''2024-01'', category = ''A'', val = 30\<rparr>]"
  have h1: "1 < length (categories mixedData)" and h2: "0 < length (groupedData mixedData)"
    by (simp_all add: mixedData_def eval_defs)
  have h3: "mixedData = ?pre @ ?d # ?post"
    by (simp add: mixedData_def)
  have h4: "date ?d = fst (groupedData mixedData ! 0)"
    and h5: "category ?d = categories mixedData ! 1"
    by (simp_all add: mixedData_def eval_defs)
  have h6: "\<forall>e\<in>set ?pre. \<not> (date e = date ?d \<and> category e = category ?d)"
    by simp
  from duplicates_first_wins[OF h1 h2 h3 h4 h5 h6] h1 h2 h3 show ?thesis by simp
qed

section \<open>The value scale\<close>

lemma max_step_Some: "max_step (Some m) v = Some (max m v)"
  by (simp add: max_def)

lemma foldl_max_step: "foldl max_step (Some m) vs = Some (Max (insert m (set vs)))"
proof (induction vs arbitrary: m)
  case Nil
  then show ?case by simp
next
  case (Cons v vs)
  have "Max (insert (max m v) (set vs)) = Max (insert m (insert v (set vs)))"
    by (cases "vs = []") (simp_all add: max.assoc)
  then show ?case by (simp add: max_step_Some Cons.IH del: max_step.simps)
qed

lemma d3_max_eq: "d3_max vs = (if vs = [] then None else Some (Max (set vs)))"
  by (cases vs) (simp_all add: d3_max_def foldl_max_step)

lemma maxTargetValue_eq: "maxTargetValue ts = maxOverlayValue ts"
  by (simp add: maxTargetValue_def maxOverlayValue_def d3_max_eq or0_simps)

lemma stackedData_nonempty: "data \<noteq> [] \<Longrightarrow> stackedData data \<noteq> []"
  using categories_nonempty[of data] stackedData_length[of data] by (metis length_0_conv)

lemma groupedData_nonempty: "data \<noteq> [] \<Longrightarrow> groupedData data \<noteq> []"
  by (metis groupedData_keys set_new_Set set_map list.map_disc_iff set_empty)

lemma stackedData_points_length:
  "s \<in> set (stackedData data) \<Longrightarrow> length (points s) = length (groupedData data)"
  by (auto simp: in_set_conv_nth stackedData_def d3_stack_length d3_stack_points)

lemma maxDataValue_eq:
  assumes "data \<noteq> []"
  shows "maxDataValue (stackedData data) = Inr (maxStackHeight data)"
proof -
  have ne: "stackedData data \<noteq> []" using assms by (rule stackedData_nonempty)
  then have "length (points (last (stackedData data))) = length (groupedData data)"
    by (intro stackedData_points_length) simp
  then have "points (last (stackedData data)) \<noteq> []"
    using groupedData_nonempty[OF assms] by (metis length_0_conv)
  then show ?thesis
    using ne by (simp add: maxDataValue_def maxStackHeight_def d3_max_eq or0_simps)
qed

lemma maxDataValue_empty: "maxDataValue (stackedData []) = Inl TypeError"
  by (simp add: maxDataValue_def stackedData_def categories_def new_Set_def d3_stack_def offsetNone_def)

lemma linear_apply_from_zero:
  "linear_apply \<lparr>ldomain = (0, M), lrange = (H, 0)\<rparr> v =
     (if M = 0 then H / 2 else H * (1 - v / M))"
  by (simp add: linear_apply_def bimap_def d3_normalize_def interpolateNumber_def
      diff_divide_distrib)


lemma yScale_eq:
  "data \<noteq> [] \<Longrightarrow>
   yScale (stackedData data) ts height =
     Inr \<lparr>ldomain = (0, max (maxStackHeight data) (maxOverlayValue ts)),
          lrange = (innerHeight height, 0)\<rparr>"
  by (simp add: yScale_def maxValue_def maxDataValue_eq maxTargetValue_eq)

lemma yScale1_eq:
  "data \<noteq> [] \<Longrightarrow>
   yScale1 (stackedData data) height =
     Inr \<lparr>ldomain = (0, maxStackHeight data), lrange = (innerHeight height, 0)\<rparr>"
  by (simp add: yScale1_def maxDataValue_eq)

lemmas scale_defs = maxDataValue_def d3_max_def yScale1_def yScale_def maxValue_def
  maxTargetValue_def setTarget_def innerHeight_def

text \<open>
  Claim C4 (value domain, variant with targets), as amended. For every non-empty record
  array and every target array, the value scale has the domain \<open>[0, M]\<close>, where \<open>M\<close>
  is the greater of the greatest stack height and the greatest overlay value (0 without
  targets), and the range \<open>[innerHeight, 0]\<close>. When \<open>M\<close> is not 0 the scale maps
  \<open>v\<close> to \<open>innerHeight * (1 - v / M)\<close>, so 0 to \<open>innerHeight\<close> and \<open>M\<close> to 0; when
  \<open>M\<close> is 0 it maps every value to the middle of the range. Scenario C: with a stack
  maximum of 50, replacing the target 50 by 80 moves the upper end of the domain from 50
  to 80.
\<close>

theorem value_domain:
  assumes "data \<noteq> []"
  shows "yScale (stackedData data) ts height =
           Inr \<lparr>ldomain = (0, max (maxStackHeight data) (maxOverlayValue ts)),
                lrange = (innerHeight height, 0)\<rparr> \<and>
         linear_apply \<lparr>ldomain = (0, max (maxStackHeight data) (maxOverlayValue ts)),
                       lrange = (innerHeight height, 0)\<rparr> v =
           (if max (maxStackHeight data) (maxOverlayValue ts) = 0 then innerHeight height / 2
            else innerHeight height * (1 - v / max (maxStackHeight data) (maxOverlayValue ts))) \<and>
         maxDataValue (stackedData scenarioA) = Inr 50 \<and>
         map_sum id ldomain (yScale (stackedData scenarioA) scenarioTargets height) = Inr (0, 50) \<and>
         map_sum id ldomain (yScale (stackedData scenarioA) (setTarget scenarioTargets 0 80) height)
           = Inr (0, 80)"
proof -
  have "maxDataValue (stackedData scenarioA) = Inr 50"
    and "map_sum id ldomain (yScale (stackedData scenarioA) scenarioTargets height) = Inr (0, 50)"
    and "map_sum id ldomain (yScale (stackedData scenarioA) (setTarget scenarioTargets 0 80) height)
           = Inr (0, 80)"
    by (simp_all add: scenarioA_def scenarioTargets_def eval_defs scale_defs)
  then show ?thesis
    using assms by (simp only: yScale_eq linear_apply_from_zero simp_thms)
qed

theorem value_domain_witness:
  "defaultData \<noteq> [] \<and>
   yScale (stackedData defaultData) (setTarget defaultTargets 2 80) 400 =
     Inr \<lparr>ldomain = (0, 80), lrange = (350, 0)\<rparr> \<and>
   linear_apply \<lparr>ldomain = (0, 80), lrange = (350, 0)\<rparr> 0 = 350 \<and>
   linear_apply \<lparr>ldomain = (0, 80), lrange = (350, 0)\<rparr> 80 = 0 \<and>
   linear_apply \<lparr>ldomain = (0, 80), lrange = (350, 0)\<rparr> 40 = 175"
proof -
  have h: "defaultData \<noteq> []" by (simp add: defaultData_def)
  have m: "max (maxStackHeight defaultData) (maxOverlayValue (setTarget defaultTargets 2 80)) = 80"
    by (simp add: maxStackHeight_def maxOverlayValue_def defaultData_def defaultTargets_def
        setTarget_def eval_defs)
  have i: "innerHeight 400 = 350" by (simp add: innerHeight_def)
  from value_domain[OF h, of "setTarget defaultTargets 2 80" 400 0]
       value_domain[OF h, of "setTarget defaultTargets 2 80" 400 80]
       value_domain[OF h, of "setTarget defaultTargets 2 80" 400 40]
  show ?thesis unfolding m i using h by simp
qed

text \<open>
  Claim C4 as stated fails on two inputs. For the empty record array there is no scale:
  computing the domain raises. For records and targets that are all 0 the domain is
  \<open>[0, 0]\<close> and the scale maps 0 to the middle of the range, 175 of 350, and not to
  \<open>innerHeight\<close>.
\<close>

theorem value_domain_counterexample:
  "yScale (stackedData []) defaultTargets 400 = Inl TypeError \<and>
   yScale (stackedData zeroData) zeroTargets 400 = Inr \<lparr>ldomain = (0, 0), lrange = (350, 0)\<rparr> \<and>
   linear_apply \<lparr>ldomain = (0, 0), lrange = (350, 0)\<rparr> 0 = 175 \<and>
   linear_apply \<lparr>ldomain = (0, 0), lrange = (350, 0)\<rparr> 0 \<noteq> 350"
  by (simp add: zeroData_def zeroTargets_def defaultTargets_def eval_defs scale_defs
      linear_apply_def bimap_def d3_normalize_def interpolateNumber_def)


section \<open>The effect as a whole\<close>

lemma useEffect_completes:
  "data \<noteq> [] \<Longrightarrow> snd (useEffect data ts width height) = None"
  by (simp add: useEffect_def yScale_eq Let_def)

lemma useEffect1_completes:
  "data \<noteq> [] \<Longrightarrow> snd (useEffect1 data width height) = None"
  by (simp add: useEffect1_def yScale1_eq Let_def)

lemma useEffect_bars:
  "data \<noteq> [] \<Longrightarrow>
   drawn_bars (fst (useEffect data ts width height)) =
     bars (xScale (groupedData data) width)
       \<lparr>ldomain = (0, max (maxStackHeight data) (maxOverlayValue ts)),
        lrange = (innerHeight height, 0)\<rparr> (stackedData data)"
  by (simp add: useEffect_def yScale_eq Let_def drawn_bars_def)

lemma useEffect1_bars:
  "data \<noteq> [] \<Longrightarrow>
   drawn_bars (fst (useEffect1 data width height)) =
     bars (xScale (groupedData data) width)
       \<lparr>ldomain = (0, maxStackHeight data), lrange = (innerHeight height, 0)\<rparr>
       (stackedData data)"
  by (simp add: useEffect1_def yScale1_eq Let_def drawn_bars_def)

lemma stack_value_zero:
  "\<forall>d\<in>set ds. val d = 0 \<Longrightarrow> stack_value (b, ds) k = 0"
  by (induction ds) (simp_all add: stack_value_Nil stack_value_Cons)

lemma groupedData_records:
  "b \<in> set (groupedData data) \<Longrightarrow> set (snd b) \<subseteq> set data"
  by (auto simp: groupedData_eq bucket_records_def)

lemma zero_points:
  assumes "\<forall>d\<in>set data. val d = 0" and "s \<in> set (stackedData data)" and "d \<in> set (points s)"
  shows "p0 d = 0 \<and> p1 d = 0"
proof -
  have zero: "stack_value b k = 0" if "b \<in> set (groupedData data)" for b k
  proof -
    have "\<forall>d\<in>set (snd b). val d = 0"
      using assms(1) groupedData_records[OF that] by auto
    then have "stack_value (fst b, snd b) k = 0" by (rule stack_value_zero)
    then show ?thesis by simp
  qed
  obtain i where i: "i < length (categories data)" and s: "s = stackedData data ! i"
    using assms(2) by (auto simp: in_set_conv_nth stackedData_length)
  have "points s = map (\<lambda>d. \<lparr>p0 = sum_list (map (stack_value d) (take i (categories data))),
                    p1 = sum_list (map (stack_value d) (take (Suc i) (categories data))),
                    pdata = d\<rparr>) (groupedData data)"
    unfolding s stackedData_def using i by (rule d3_stack_points)
  then obtain b where b: "b \<in> set (groupedData data)"
    and d: "d = \<lparr>p0 = sum_list (map (stack_value b) (take i (categories data))),
                    p1 = sum_list (map (stack_value b) (take (Suc i) (categories data))),
                    pdata = b\<rparr>"
    using assms(3) by auto
  have "sum_list (map (stack_value b) ks) = 0" for ks
    by (induction ks) (simp_all add: zero[OF b])
  then show ?thesis by (simp add: d)
qed

lemma in_bars:
  "r \<in> set (bars xs ys sd) \<Longrightarrow> \<exists>s\<in>set sd. \<exists>d\<in>set (points s). r = bar xs ys (key s) d"
  by (auto simp: bars_def)

lemma zero_bars:
  assumes "\<forall>d\<in>set data. val d = 0" and "r \<in> set (bars xs ys (stackedData data))"
  shows "rect_height r = 0"
proof -
  obtain s d where "s \<in> set (stackedData data)" "d \<in> set (points s)" "r = bar xs ys (key s) d"
    using in_bars[OF assms(2)] by blast
  then show ?thesis using zero_points[OF assms(1)] by (simp add: bar_def)
qed

lemma bars_length:
  "data \<noteq> [] \<Longrightarrow> bars xs ys (stackedData data) \<noteq> []"
proof -
  assume ne: "data \<noteq> []"
  then obtain s where s: "s \<in> set (stackedData data)"
    using stackedData_nonempty by (metis last_in_set)
  then have "points s \<noteq> []"
    using stackedData_points_length[OF s] groupedData_nonempty[OF ne] by (metis length_0_conv)
  then show ?thesis using s by (auto simp: bars_def)
qed

text \<open>
  Claim C6 (zero-domain safety). For every non-empty record array whose values are all
  0, in both variants: the effect raises nothing, it draws bars, and every bar it draws
  has height 0. The normaliser of the value scale tests the width of the domain before
  dividing by it, and the divisor of the band step is at least 1.
\<close>

theorem zero_domain_safety:
  assumes "data \<noteq> []" and "\<forall>d\<in>set data. val d = 0"
  shows "snd (useEffect1 data width height) = None \<and>
         snd (useEffect data ts width height) = None \<and>
         drawn_bars (fst (useEffect1 data width height)) \<noteq> [] \<and>
         drawn_bars (fst (useEffect data ts width height)) \<noteq> [] \<and>
         (\<forall>r\<in>set (drawn_bars (fst (useEffect1 data width height))). rect_height r = 0) \<and>
         (\<forall>r\<in>set (drawn_bars (fst (useEffect data ts width height))). rect_height r = 0)"
  using assms
  by (simp add: useEffect_completes useEffect1_completes useEffect_bars useEffect1_bars
      zero_bars bars_length)

theorem zero_domain_safety_witness:
  "zeroData \<noteq> [] \<and> list_all (\<lambda>d. val d = 0) zeroData \<and>
   snd (useEffect1 zeroData 800 400) = None \<and>
   snd (useEffect zeroData zeroTargets 800 400) = None \<and>
   yScale1 (stackedData zeroData) 400 = Inr \<lparr>ldomain = (0, 0), lrange = (350, 0)\<rparr> \<and>
   map rect_height (drawn_bars (fst (useEffect1 zeroData 800 400))) = [0, 0] \<and>
   map rect_height (drawn_bars (fst (useEffect zeroData zeroTargets 800 400))) = [0, 0]"
proof -
  have h1: "zeroData \<noteq> []" and h2: "\<forall>d\<in>set zeroData. val d = 0"
    by (simp_all add: zeroData_def)
  have l1: "length (drawn_bars (fst (useEffect1 zeroData 800 400))) = 2"
    by (simp add: useEffect1_bars[OF h1] bars_def) (simp add: zeroData_def eval_defs)
  have l2: "length (drawn_bars (fst (useEffect zeroData zeroTargets 800 400))) = 2"
    by (simp add: useEffect_bars[OF h1] bars_def) (simp add: zeroData_def eval_defs)
  have y: "yScale1 (stackedData zeroData) 400 = Inr \<lparr>ldomain = (0, 0), lrange = (350, 0)\<rparr>"
    by (simp add: zeroData_def eval_defs scale_defs)
  have two: "map f rs = [0, 0]" if "length rs = 2" "\<forall>r\<in>set rs. f r = (0::real)"
    for f :: "Rect \<Rightarrow> real" and rs
    using that by (cases rs; cases "tl rs") auto
  from zero_domain_safety[OF h1 h2, of 800 400 zeroTargets] h1 h2 y two[OF l1] two[OF l2]
  show ?thesis by (simp add: list_all_iff)
qed

text \<open>
  Claim C7 (no failure in the middle of a render pass) does not hold of the empty record
  array: in both variants the effect has set the size, scheduled the removal of the
  previous content and appended the container when the computation of the value domain
  raises, and the pass ends there.
\<close>

theorem empty_data_aborts:
  "useEffect1 [] width height =
     ([SetSize width height, RemovePrevious, AppendContainer], Some TypeError) \<and>
   useEffect [] ts width height =
     ([SetSize width height, RemovePrevious, AppendContainer], Some TypeError)"
  by (simp add: useEffect1_def useEffect_def yScale1_def yScale_def maxValue_def
      maxDataValue_empty Let_def)


section \<open>Tooltip and legend\<close>

text \<open>
  Claim C5 (tooltip content) does not hold of the label: for the first rectangle of the
  default chart, which belongs to category A, the handler computes the value 20 of the
  segment as top minus bottom, and the label it shows with it is the bucket key
  \<^verbatim>\<open>2024-01\<close>, not the category.
\<close>

theorem tooltip_shows_bucket_key:
  "rect_key (drawn_bars (fst (useEffect defaultData defaultTargets 800 400)) ! 0) = ''A'' \<and>
   mouseover (100, 100)
     (rect_datum (drawn_bars (fst (useEffect defaultData defaultTargets 800 400)) ! 0)) =
     \<lparr>tt_x = 90, tt_y = 90, tt_label = ''2024-01'', tt_total = 20\<rparr> \<and>
   rect_key (drawn_bars (fst (useEffect1 defaultData 800 400)) ! 0) = ''A'' \<and>
   mouseover (100, 100) (rect_datum (drawn_bars (fst (useEffect1 defaultData 800 400)) ! 0)) =
     \<lparr>tt_x = 90, tt_y = 90, tt_label = ''2024-01'', tt_total = 20\<rparr>"
proof -
  have ne: "defaultData \<noteq> []" by (simp add: defaultData_def)
  have sd: "map (\<lambda>s. (key s, map (\<lambda>d. (p0 d, p1 d, fst (pdata d))) (points s)))
              (stackedData defaultData) =
            [(''A'', [(0, 20, ''2024-01''), (0, 25, ''2024-02''), (0, 30, ''2024-03'')]),
             (''B'', [(20, 50, ''2024-01''), (25, 60, ''2024-02''), (30, 55, ''2024-03'')]),
             (''C'', [(50, 65, ''2024-01''), (60, 80, ''2024-02''), (55, 80, ''2024-03'')])]"
    by (simp add: defaultData_def eval_defs)
  have first: "rect_key (bars xs ys (stackedData defaultData) ! 0) = ''A'' \<and>
        mouseover (100, 100) (rect_datum (bars xs ys (stackedData defaultData) ! 0)) =
          \<lparr>tt_x = 90, tt_y = 90, tt_label = ''2024-01'', tt_total = 20\<rparr>" for xs ys
    using sd by (auto simp: bars_def bar_def mouseover_def)
  show ?thesis
    by (simp only: useEffect_bars[OF ne] useEffect1_bars[OF ne] first simp_thms)
qed

subsection \<open>The legend\<close>

lemma filter_key:
  "distinct (map fst gs) \<Longrightarrow> (c, v) \<in> set gs \<Longrightarrow> filter (\<lambda>g. fst g = c) gs = [(c, v)]"
proof (induction gs)
  case Nil
  then show ?case by simp
next
  case (Cons g gs)
  show ?case
  proof (cases "fst g = c")
    case True
    then have "c \<notin> fst ` set gs" using Cons.prems(1) by auto
    then have "filter (\<lambda>g. fst g = c) gs = []" "(c, v) \<notin> set gs"
      by (auto simp: filter_empty_conv image_iff)
    then show ?thesis using True Cons.prems(2) by auto
  next
    case False
    then show ?thesis using Cons by auto
  qed
qed

lemma legend_click_group:
  assumes "distinct (map fst gs)" and "(c, g) \<in> set gs"
  shows "\<exists>gs'. legend_click now c gs = Inr gs' \<and> map fst gs' = map fst gs \<and>
           (c, g\<lparr>scheduled := Some (now, if style_opacity g = 1 then 0.2 else 1)\<rparr>) \<in> set gs'"
proof -
  let ?f = "\<lambda>g'. if fst g' = c
              then (fst g', (snd g')\<lparr>scheduled := Some (now, if style_opacity g = 1 then 0.2 else 1)\<rparr>)
              else g'"
  have "legend_click now c gs = Inr (map ?f gs)"
    by (simp add: legend_click_def filter_key[OF assms] Let_def)
  moreover have "map fst (map ?f gs) = map fst gs" by (intro nth_equalityI) auto
  moreover have "?f (c, g) \<in> ?f ` set gs" using assms(2) by (rule imageI)
  ultimately show ?thesis by auto
qed

lemma run_append:
  "run (es1 @ es2) gs = (case run es1 gs of Inl e \<Rightarrow> Inl e | Inr gs' \<Rightarrow> run es2 gs')"
  by (induction es1 gs rule: run.induct) (auto split: sum.splits)

lemma run_frames:
  "run (map Frame fs) gs =
     Inr (map (\<lambda>g. (fst g, foldl (\<lambda>g now. timer_frame now g) (snd g) fs)) gs)"
  by (induction fs arbitrary: gs) (simp_all add: comp_def)

lemma timer_frame_at_rest: "timer_frame now (at_rest v) = at_rest v"
  by (simp add: timer_frame_def transition_tick_def transition_start_def at_rest_def)

lemma frames_at_rest: "foldl (\<lambda>g now. timer_frame now g) (at_rest v) fs = at_rest v"
  by (induction fs) (simp_all add: timer_frame_at_rest)

lemma frames_running:
  assumes "running g = Some (t0, a, b)" and "scheduled g = None"
    and "fs \<noteq> []" and "t0 + 250 \<le> last fs"
  shows "foldl (\<lambda>g now. timer_frame now g) g fs = at_rest b"
  using assms
proof (induction fs arbitrary: g)
  case Nil
  then show ?case by simp
next
  case (Cons f fs)
  show ?case
  proof (cases "f - t0 < 250")
    case True
    let ?g = "g\<lparr>style_opacity := interpolateNumber a b (easeCubicInOut ((f - t0) / 250))\<rparr>"
    have step: "timer_frame f g = ?g"
      using True Cons.prems(1,2)
      by (simp add: timer_frame_def transition_tick_def transition_start_def)
    have "fs \<noteq> []" using True Cons.prems(4) by auto
    then have "foldl (\<lambda>g now. timer_frame now g) ?g fs = at_rest b"
      using Cons.prems by (intro Cons.IH) simp_all
    then show ?thesis by (simp add: step)
  next
    case False
    have "timer_frame f g = at_rest b"
      using False Cons.prems(1,2)
      by (simp add: timer_frame_def transition_tick_def transition_start_def at_rest_def)
    then show ?thesis by (simp add: frames_at_rest)
  qed
qed

lemma frames_scheduled:
  assumes "fs \<noteq> []" and "t0 + 250 \<le> last fs"
  shows "foldl (\<lambda>g now. timer_frame now g) ((at_rest v)\<lparr>scheduled := Some (t0, b)\<rparr>) fs = at_rest b"
proof -
  obtain f fs' where fs: "fs = f # fs'" using assms(1) by (cases fs) auto
  let ?g = "(at_rest v)\<lparr>scheduled := Some (t0, b)\<rparr>"
  show ?thesis
  proof (cases "f - t0 < 250")
    case True
    let ?r = "\<lparr>style_opacity = interpolateNumber v b (easeCubicInOut ((f - t0) / 250)),
               running = Some (t0, v, b), scheduled = None\<rparr>"
    have step: "timer_frame f ?g = ?r"
      using True by (simp add: timer_frame_def transition_tick_def transition_start_def at_rest_def)
    have "fs' \<noteq> []" using True assms(2) fs by auto
    then have "foldl (\<lambda>g now. timer_frame now g) ?r fs' = at_rest b"
      using assms(2) fs by (intro frames_running[where ?t0.0 = t0 and a = v]) simp_all
    then show ?thesis by (simp add: fs step)
  next
    case False
    have "timer_frame f ?g = at_rest b"
      using False by (simp add: timer_frame_def transition_tick_def transition_start_def at_rest_def)
    then show ?thesis by (simp add: fs frames_at_rest)
  qed
qed


lemma run_frames_group:
  assumes "(c, g) \<in> set gs"
  shows "\<exists>gs'. run (map Frame fs) gs = Inr gs' \<and> map fst gs' = map fst gs \<and>
           (c, foldl (\<lambda>g now. timer_frame now g) g fs) \<in> set gs'"
proof -
  let ?f = "\<lambda>g. (fst g, foldl (\<lambda>g now. timer_frame now g) (snd g) fs)"
  have "?f (c, g) \<in> ?f ` set gs" using assms by (rule imageI)
  moreover have "map fst (map ?f gs) = map fst gs" by (intro nth_equalityI) auto
  ultimately show ?thesis by (auto simp: run_frames)
qed

lemma click_and_settle:
  assumes "distinct (map fst gs)" and "(c, at_rest v) \<in> set gs"
    and "fs \<noteq> []" and "now + 250 \<le> last fs"
  shows "\<exists>gs'. run (Click now c # map Frame fs) gs = Inr gs' \<and> map fst gs' = map fst gs \<and>
           (c, at_rest (if v = 1 then 0.2 else 1)) \<in> set gs'"
proof -
  obtain gs1 where c1: "legend_click now c gs = Inr gs1" and k1: "map fst gs1 = map fst gs"
    and m1: "(c, (at_rest v)\<lparr>scheduled := Some (now, if style_opacity (at_rest v) = 1 then 0.2 else 1)\<rparr>)
               \<in> set gs1"
    using legend_click_group[OF assms(1,2)] by blast
  have v: "style_opacity (at_rest v) = v" by (simp add: at_rest_def)
  obtain gs2 where c2: "run (map Frame fs) gs1 = Inr gs2" and k2: "map fst gs2 = map fst gs1"
    and m2: "(c, foldl (\<lambda>g now. timer_frame now g)
                  ((at_rest v)\<lparr>scheduled := Some (now, if v = 1 then 0.2 else 1)\<rparr>) fs) \<in> set gs2"
    using run_frames_group[OF m1[unfolded v]] by blast
  have "(c, at_rest (if v = 1 then 0.2 else 1)) \<in> set gs2"
    using m2 by (simp only: frames_scheduled[OF assms(3,4)])
  then show ?thesis using c1 c2 k1 k2 by simp
qed

text \<open>
  Claim C8 (legend toggle), as amended. Let the category groups be those of the chart,
  one per category, and let the group of category \<open>c\<close> be at rest with the opacity 1
  or 0.2. A click on the legend entry of \<open>c\<close> at the time \<open>t1\<close>, followed by timer
  frames the last of which comes at least 250 (the duration of the transition) after
  the click, leaves the group at rest with the other of the two opacities. A second
  click at the time \<open>t2\<close>, again followed by timer frames up to at least 250 after
  it, leaves the group at rest with exactly the opacity from before the first click.
\<close>

theorem legend_toggle_settled:
  assumes "map fst gs = categories data"
    and "(c, at_rest v) \<in> set gs"
    and "v = 1 \<or> v = 0.2"
    and "fs1 \<noteq> []" and "t1 + 250 \<le> last fs1"
    and "fs2 \<noteq> []" and "t2 + 250 \<le> last fs2"
  shows "\<exists>gs1 gs2.
           run (Click t1 c # map Frame fs1) gs = Inr gs1 \<and>
           (c, at_rest (if v = 1 then 0.2 else 1)) \<in> set gs1 \<and>
           run (Click t1 c # map Frame fs1 @ Click t2 c # map Frame fs2) gs = Inr gs2 \<and>
           (c, at_rest v) \<in> set gs2"
proof -
  let ?w = "if v = 1 then 0.2 else (1::real)"
  have d: "distinct (map fst gs)"
    by (simp add: assms(1) categories_def distinct_new_Set)
  obtain gs1 where r1: "run (Click t1 c # map Frame fs1) gs = Inr gs1"
    and k1: "map fst gs1 = map fst gs" and m1: "(c, at_rest ?w) \<in> set gs1"
    using click_and_settle[OF d assms(2,4,5)] by blast
  have d1: "distinct (map fst gs1)" using d k1 by simp
  obtain gs2 where r2: "run (Click t2 c # map Frame fs2) gs1 = Inr gs2"
    and m2: "(c, at_rest (if ?w = 1 then 0.2 else 1)) \<in> set gs2"
    using click_and_settle[OF d1 m1 assms(6,7)] by blast
  have "(if ?w = 1 then 0.2 else 1) = v" using assms(3) by auto
  then have m2': "(c, at_rest v) \<in> set gs2" using m2 by simp
  have "run ((Click t1 c # map Frame fs1) @ Click t2 c # map Frame fs2) gs = Inr gs2"
    by (simp only: run_append r1 r2 sum.case)
  then show ?thesis using r1 m1 m2' by auto
qed


lemmas legend_defs = legend_click_def timer_frame_def transition_tick_def transition_start_def
  interpolateNumber_def easeCubicInOut_def at_rest_def Let_def

lemma default_styles:
  "initial_styles (stackedData defaultData) =
     [(''A'', at_rest 1), (''B'', at_rest 1), (''C'', at_rest 1)]"
  by (simp add: initial_styles_def defaultData_def eval_defs at_rest_def)

theorem legend_toggle_settled_witness:
  "map fst (initial_styles (stackedData defaultData)) = categories defaultData \<and>
   (''B'', at_rest 1) \<in> set (initial_styles (stackedData defaultData)) \<and>
   run (Click 0 ''B'' # map Frame [16, 300]) (initial_styles (stackedData defaultData)) =
     Inr dimmedB \<and>
   run (Click 0 ''B'' # map Frame [16, 300] @ Click 1000 ''B'' # map Frame [1016, 1300])
     (initial_styles (stackedData defaultData)) = Inr (initial_styles (stackedData defaultData))"
proof -
  have h1: "map fst (initial_styles (stackedData defaultData)) = categories defaultData"
    by (simp add: initial_styles_def stackedData_keys comp_def)
  have h2: "(''B'', at_rest 1) \<in> set (initial_styles (stackedData defaultData))"
    by (simp add: default_styles)
  have h3: "(1::real) = 1 \<or> (1::real) = 0.2" by simp
  have f1: "[16, 300::real] \<noteq> []" "(0::real) + 250 \<le> last [16, 300]" by simp_all
  have f2: "[1016, 1300::real] \<noteq> []" "(1000::real) + 250 \<le> last [1016, 1300]" by simp_all
  have e1: "run (Click 0 ''B'' # map Frame [16, 300]) (initial_styles (stackedData defaultData)) =
     Inr dimmedB"
    by (simp add: default_styles dimmedB_def legend_defs)
  from legend_toggle_settled[OF h1 h2 h3 f1 f2] obtain gs2 where
    "run (Click 0 ''B'' # map Frame [16, 300] @ Click 1000 ''B'' # map Frame [1016, 1300])
       (initial_styles (stackedData defaultData)) = Inr gs2"
    "(''B'', at_rest 1) \<in> set gs2"
    by blast
  moreover have "run (Click 0 ''B'' # map Frame [16, 300] @ Click 1000 ''B'' # map Frame [1016, 1300])
       (initial_styles (stackedData defaultData)) = Inr (initial_styles (stackedData defaultData))"
    by (simp add: default_styles dimmedB_def legend_defs)
  ultimately show ?thesis using h1 h2 e1 by simp
qed

text \<open>
  Claim C8 as stated, for two clicks in succession whatever the time between them,
  fails when the second click comes while the transition of the first is running. In
  the default chart, dim category B (a click and its transition), then click its legend
  entry at the time 1000 and again at 1100: the second click reads the opacity
  \<open>253 / 625\<close>, which is not 1, and sets the target 1, so the group ends fully opaque
  and not at the 0.2 it had before the two clicks.
\<close>

theorem legend_toggle_quick_counterexample:
  "run [Click 0 ''B'', Frame 16, Frame 300] (initial_styles (stackedData defaultData)) =
     Inr dimmedB \<and>
   run [Click 1000 ''B'', Frame 1016, Frame 1100] dimmedB =
     Inr [(''A'', at_rest 1),
          (''B'', \<lparr>style_opacity = 253 / 625, running = Some (1000, 0.2, 1), scheduled = None\<rparr>),
          (''C'', at_rest 1)] \<and>
   run [Click 1000 ''B'', Frame 1016, Frame 1100, Click 1100 ''B'', Frame 1116, Frame 1400] dimmedB =
     Inr [(''A'', at_rest 1), (''B'', at_rest 1), (''C'', at_rest 1)] \<and>
   dimmedB = [(''A'', at_rest 1), (''B'', at_rest 0.2), (''C'', at_rest 1)] \<and>
   at_rest 1 \<noteq> at_rest 0.2"
  by (simp add: default_styles dimmedB_def legend_defs)

end
